theory Spec2Isabelle
  imports Main
begin

section \<open>Data model\<close>

text \<open>
  The matchmaking core of the server: \<open>PeerManager\<close> (services/peer-manager.ts) and
  \<open>SignalingService\<close> (services/signaling.ts).

  A \<open>WebSocket\<close> is an object owned by the transport library; the model names it by a
  handle. Its \<open>readyState\<close> changes outside the code modelled here, so every operation
  that reads it takes the current reading \<open>rs\<close> as an argument. A call of \<open>ws.send\<close>
  is recorded as a pair (socket, message) in the list of sends the operation returns.
\<close>

datatype ReadyState = CONNECTING | OPEN | CLOSING | CLOSED

type_synonym WebSocket = nat

text \<open>interface Client; the field \<open>id\<close> is named \<open>cid\<close> here.\<close>

record Client =
  cid :: string
  ws :: WebSocket
  partnerId :: "string option"
  isWaiting :: bool

text \<open>class PeerManager: \<open>clients\<close> is the Map, \<open>waitingQueue\<close> the array.\<close>

record PeerManager =
  clients :: "string \<rightharpoonup> Client"
  waitingQueue :: "string list"

text \<open>
  A decoded inbound JSON object: its \<open>type\<close>, its \<open>message\<close> field (the chat text) and the
  remaining fields, which the server never inspects. A missing or non-string \<open>type\<close> behaves
  like any string that is none of the six kinds.
\<close>

record Message =
  type :: string
  message :: string
  payload :: string

datatype Outbound =
    PartnerDisconnected
  | PartnerFound string
  | WaitingForPartner
  | Relayed Message
  | ChatMessage string string

type_synonym Sends = "(WebSocket \<times> Outbound) list"

datatype error = TypeError

text \<open>
  An optional string (\<open>partnerId?: string\<close>, \<open>string | null\<close>) is a \<open>string option\<close>. The tests
  \<open>if (client.partnerId)\<close> and \<open>if (partnerId)\<close> are JavaScript truthiness: they fail for
  \<open>undefined\<close>, for \<open>null\<close> and for the empty string, so each is modelled as the case
  \<open>None\<close> followed by the test \<open>pid = []\<close>.
\<close>

section \<open>PeerManager\<close>

definition addClient :: "string \<Rightarrow> WebSocket \<Rightarrow> PeerManager \<Rightarrow> PeerManager" where
  "addClient i w pm =
     pm\<lparr>clients := (clients pm)(i \<mapsto> \<lparr>cid = i, ws = w, partnerId = None, isWaiting = False\<rparr>)\<rparr>"

text \<open>
  \<open>removeClient\<close>: the partner is notified and reset inside one guard, which also asks for
  the partner's socket to be open. \<open>indexOf\<close> followed by \<open>splice(index, 1)\<close> removes the
  first occurrence, which is \<open>remove1\<close>.
\<close>

definition removeClient ::
  "(WebSocket \<Rightarrow> ReadyState) \<Rightarrow> string \<Rightarrow> PeerManager \<Rightarrow> Sends \<times> PeerManager" where
  "removeClient rs i pm =
     (case clients pm i of
        None \<Rightarrow> ([], pm)
      | Some client \<Rightarrow>
          let (out, cs) =
                (case partnerId client of
                   None \<Rightarrow> ([], clients pm)
                 | Some pid \<Rightarrow>
                     if pid = [] then ([], clients pm)
                     else (case clients pm pid of
                             None \<Rightarrow> ([], clients pm)
                           | Some partner \<Rightarrow>
                               if rs (ws partner) = OPEN
                               then ([(ws partner, PartnerDisconnected)],
                                     (clients pm)(pid \<mapsto>
                                        partner\<lparr>partnerId := None, isWaiting := False\<rparr>))
                               else ([], clients pm)))
          in (out, \<lparr>clients = cs(i := None),
                    waitingQueue = remove1 i (waitingQueue pm)\<rparr>))"

text \<open>
  The predicate of the filter that builds \<open>availableClients\<close>:
  \<open>id !== clientId && this.clients.get(id)?.ws.readyState === WebSocket.OPEN\<close>.
\<close>

definition available ::
  "(WebSocket \<Rightarrow> ReadyState) \<Rightarrow> PeerManager \<Rightarrow> string \<Rightarrow> string \<Rightarrow> bool" where
  "available rs pm clientId i =
     (i \<noteq> clientId \<and> (case clients pm i of None \<Rightarrow> False | Some c \<Rightarrow> rs (ws c) = OPEN))"

text \<open>
  \<open>findPartner\<close> returns the partner's id, or \<open>None\<close> for \<open>null\<close>. \<open>push\<close> is the test of the
  first conditional, \<open>client1\<close> and \<open>pm1\<close> are the client object and the state after it; the
  queue is reassigned only in the branch that pairs.
\<close>

definition findPartner ::
  "(WebSocket \<Rightarrow> ReadyState) \<Rightarrow> string \<Rightarrow> PeerManager \<Rightarrow> string option \<times> PeerManager" where
  "findPartner rs clientId pm =
     (case clients pm clientId of
        None \<Rightarrow> (None, pm)
      | Some client \<Rightarrow>
          let push = (\<not> isWaiting client \<and> clientId \<notin> set (waitingQueue pm));
              client1 = (if push then client\<lparr>isWaiting := True\<rparr> else client);
              pm1 = (if push
                     then \<lparr>clients = (clients pm)(clientId \<mapsto> client1),
                           waitingQueue = waitingQueue pm @ [clientId]\<rparr>
                     else pm);
              availableClients = filter (available rs pm1 clientId) (waitingQueue pm1)
          in (case availableClients of
                [] \<Rightarrow> (None, pm1)
              | pid # _ \<Rightarrow>
                  (case clients pm1 pid of
                     None \<Rightarrow> (None, pm1)
                   | Some partner \<Rightarrow>
                       (Some pid,
                        \<lparr>clients = (clients pm1)
                                     (clientId \<mapsto> client1\<lparr>partnerId := Some pid, isWaiting := False\<rparr>,
                                      pid \<mapsto> partner\<lparr>partnerId := Some clientId, isWaiting := False\<rparr>),
                         waitingQueue =
                           filter (\<lambda>i. i \<noteq> clientId \<and> i \<noteq> pid) (waitingQueue pm1)\<rparr>))))"

definition getClient :: "string \<Rightarrow> PeerManager \<Rightarrow> Client option" where
  "getClient i pm = clients pm i"

definition getPartner :: "string \<Rightarrow> PeerManager \<Rightarrow> Client option" where
  "getPartner clientId pm =
     (case clients pm clientId of
        None \<Rightarrow> None
      | Some client \<Rightarrow>
          (case partnerId client of
             None \<Rightarrow> None
           | Some pid \<Rightarrow> if pid = [] then None else clients pm pid))"

text \<open>
  \<open>disconnectPartners\<close>: here only the notification is guarded by the socket being open; the
  partner is reset whenever it is registered. When the client is its own partner the two
  resets hit one object, and resetting the record read at the start gives the same result.
\<close>

definition disconnectPartners ::
  "(WebSocket \<Rightarrow> ReadyState) \<Rightarrow> string \<Rightarrow> PeerManager \<Rightarrow> Sends \<times> PeerManager" where
  "disconnectPartners rs clientId pm =
     (case clients pm clientId of
        None \<Rightarrow> ([], pm)
      | Some client \<Rightarrow>
          (case partnerId client of
             None \<Rightarrow> ([], pm)
           | Some pid \<Rightarrow>
               if pid = [] then ([], pm)
               else
                 let (out, cs) =
                       (case clients pm pid of
                          None \<Rightarrow> ([], clients pm)
                        | Some partner \<Rightarrow>
                            (if rs (ws partner) = OPEN
                             then [(ws partner, PartnerDisconnected)] else [],
                             (clients pm)(pid \<mapsto>
                                partner\<lparr>partnerId := None, isWaiting := False\<rparr>)))
                 in (out,
                     pm\<lparr>clients :=
                          cs(clientId \<mapsto> client\<lparr>partnerId := None, isWaiting := False\<rparr>)\<rparr>)))"

definition getWaitingCount :: "PeerManager \<Rightarrow> nat" where
  "getWaitingCount pm = length (waitingQueue pm)"

section \<open>SignalingService\<close>

text \<open>
  \<open>handleFindPartner\<close>: \<open>if (partnerId)\<close> is false for \<open>null\<close> and for the empty string.
\<close>

definition handleFindPartner ::
  "(WebSocket \<Rightarrow> ReadyState) \<Rightarrow> string \<Rightarrow> WebSocket \<Rightarrow> PeerManager \<Rightarrow> Sends \<times> PeerManager" where
  "handleFindPartner rs clientId w pm =
     (case findPartner rs clientId pm of
        (r, pm') \<Rightarrow>
          (case r of
             None \<Rightarrow> ([(w, WaitingForPartner)], pm')
           | Some pid \<Rightarrow>
               if pid = [] then ([(w, WaitingForPartner)], pm')
               else (case getClient pid pm' of
                       None \<Rightarrow> ([], pm')
                     | Some partner \<Rightarrow>
                         if rs (ws partner) = OPEN
                         then ([(w, PartnerFound pid), (ws partner, PartnerFound clientId)], pm')
                         else ([], pm'))))"

definition forwardToPartner ::
  "(WebSocket \<Rightarrow> ReadyState) \<Rightarrow> string \<Rightarrow> Message \<Rightarrow> PeerManager \<Rightarrow> Sends" where
  "forwardToPartner rs clientId msg pm =
     (case getPartner clientId pm of
        None \<Rightarrow> []
      | Some partner \<Rightarrow> if rs (ws partner) = OPEN then [(ws partner, Relayed msg)] else [])"

text \<open>\<open>now\<close> is the value of \<open>new Date().toISOString()\<close> at the call.\<close>

definition forwardChatMessage ::
  "(WebSocket \<Rightarrow> ReadyState) \<Rightarrow> string \<Rightarrow> string \<Rightarrow> string \<Rightarrow> PeerManager \<Rightarrow> Sends" where
  "forwardChatMessage rs now clientId messageText pm =
     (case getPartner clientId pm of
        None \<Rightarrow> []
      | Some partner \<Rightarrow>
          if rs (ws partner) = OPEN then [(ws partner, ChatMessage messageText now)] else [])"

definition handleEndChat ::
  "(WebSocket \<Rightarrow> ReadyState) \<Rightarrow> string \<Rightarrow> PeerManager \<Rightarrow> Sends \<times> PeerManager" where
  "handleEndChat rs clientId pm = disconnectPartners rs clientId pm"

text \<open>
  \<open>handleMessage\<close>. The argument is what \<open>JSON.parse\<close> returned: \<open>None\<close> stands for \<open>null\<close>,
  on which reading \<open>message.type\<close> raises a TypeError after the registration has already
  happened; the state is returned in both cases.
\<close>

definition handleMessage ::
  "(WebSocket \<Rightarrow> ReadyState) \<Rightarrow> string \<Rightarrow> string \<Rightarrow> WebSocket \<Rightarrow> Message option \<Rightarrow> PeerManager
     \<Rightarrow> (error + Sends) \<times> PeerManager" where
  "handleMessage rs now clientId w msgo pm =
     (let pm1 = (if getClient clientId pm = None then addClient clientId w pm else pm)
      in case msgo of
           None \<Rightarrow> (Inl TypeError, pm1)
         | Some msg \<Rightarrow>
             if type msg = ''find-partner''
             then (case handleFindPartner rs clientId w pm1 of (out, pm') \<Rightarrow> (Inr out, pm'))
             else if type msg = ''offer'' then (Inr (forwardToPartner rs clientId msg pm1), pm1)
             else if type msg = ''answer'' then (Inr (forwardToPartner rs clientId msg pm1), pm1)
             else if type msg = ''ice-candidate''
             then (Inr (forwardToPartner rs clientId msg pm1), pm1)
             else if type msg = ''chat-message''
             then (Inr (forwardChatMessage rs now clientId (message msg) pm1), pm1)
             else if type msg = ''end-chat''
             then (case handleEndChat rs clientId pm1 of (out, pm') \<Rightarrow> (Inr out, pm'))
             else (Inr [], pm1))"

section \<open>Sequences of registry operations\<close>

text \<open>
  The calls that reach the PeerManager: \<open>addClient\<close> (register), \<open>findPartner\<close>
  (matchRequest), \<open>removeClient\<close> (unregister) and \<open>disconnectPartners\<close> (endSession).
  \<open>run\<close> applies a list of them in order, under one reading \<open>rs\<close> of the sockets' states.
\<close>

datatype Event =
    Register string WebSocket
  | MatchRequest string
  | Unregister string
  | EndSession string

fun step :: "(WebSocket \<Rightarrow> ReadyState) \<Rightarrow> Event \<Rightarrow> PeerManager \<Rightarrow> PeerManager" where
  "step rs (Register i w) pm = addClient i w pm"
| "step rs (MatchRequest i) pm = snd (findPartner rs i pm)"
| "step rs (Unregister i) pm = snd (removeClient rs i pm)"
| "step rs (EndSession i) pm = snd (disconnectPartners rs i pm)"

fun run :: "(WebSocket \<Rightarrow> ReadyState) \<Rightarrow> Event list \<Rightarrow> PeerManager \<Rightarrow> PeerManager" where
  "run rs [] pm = pm"
| "run rs (e # es) pm = run rs es (step rs e pm)"

text \<open>The state of \<open>new PeerManager()\<close>.\<close>

definition init :: PeerManager where
  "init = \<lparr>clients = Map.empty, waitingQueue = []\<rparr>"

text \<open>
  The states the registry can be in: from the initial one, any call, under any reading of
  the sockets' states at that call.
\<close>

inductive reachable :: "PeerManager \<Rightarrow> bool" where
  reachable_init: "reachable init"
| reachable_step: "reachable pm \<Longrightarrow> reachable (step rs e pm)"

text \<open>
  What the queue and the isWaiting flags have in common in every such state: no id is
  queued twice, queued ids are registered, and a client flagged as waiting is queued.
\<close>

definition queue_inv :: "PeerManager \<Rightarrow> bool" where
  "queue_inv pm =
     (distinct (waitingQueue pm) \<and> set (waitingQueue pm) \<subseteq> dom (clients pm) \<and>
      (\<forall>i c. clients pm i = Some c \<longrightarrow> isWaiting c \<longrightarrow> i \<in> set (waitingQueue pm)))"

text \<open>A run in which every call comes with its own reading of the sockets' states.\<close>

fun run_readings ::
  "((WebSocket \<Rightarrow> ReadyState) \<times> Event) list \<Rightarrow> PeerManager \<Rightarrow> PeerManager" where
  "run_readings [] pm = pm"
| "run_readings (re # res) pm = run_readings res (step (fst re) (snd re) pm)"

text \<open>The id \<open>a\<close> is in the queue in every state of such a run, from the first to the last.\<close>

fun queued_throughout ::
  "string \<Rightarrow> ((WebSocket \<Rightarrow> ReadyState) \<times> Event) list \<Rightarrow> PeerManager \<Rightarrow> bool" where
  "queued_throughout a [] pm = (a \<in> set (waitingQueue pm))"
| "queued_throughout a (re # res) pm =
     (a \<in> set (waitingQueue pm) \<and> queued_throughout a res (step (fst re) (snd re) pm))"

text \<open>
  In a queue without duplicates: \<open>a\<close> is queued, and \<open>b\<close> is either not queued or stands
  behind \<open>a\<close>.
\<close>

definition entered_before :: "string \<Rightarrow> string \<Rightarrow> string list \<Rightarrow> bool" where
  "entered_before a b q =
     (filter (\<lambda>x. x = a \<or> x = b) q = [a] \<or> filter (\<lambda>x. x = a \<or> x = b) q = [a, b])"

subsection \<open>Concrete scenarios\<close>

text \<open>Socket readings: every socket open, and every socket open but one.\<close>

definition allOpen :: "WebSocket \<Rightarrow> ReadyState" where
  "allOpen w = OPEN"

definition closedAt :: "WebSocket \<Rightarrow> WebSocket \<Rightarrow> ReadyState" where
  "closedAt w0 w = (if w = w0 then CLOSED else OPEN)"

text \<open>A and B connect, both ask for a partner, and are paired with each other.\<close>

definition pairedAB :: PeerManager where
  "pairedAB =
     run allOpen [Register ''A'' 1, Register ''B'' 2, MatchRequest ''A'', MatchRequest ''B''] init"

text \<open>From there B disconnects while A's socket is no longer open: A keeps a partnerId
  that names nobody.\<close>

definition danglingA :: PeerManager where
  "danglingA = step (closedAt 1) (Unregister ''B'') pairedAB"

text \<open>S asks for a partner and waits; its socket then stops being open, and C connects.\<close>

definition staleS :: PeerManager where
  "staleS = run (closedAt 1) [Register ''S'' 1, MatchRequest ''S'', Register ''C'' 2] init"

text \<open>A queue holding S, A and B in this order, and an idle client C.\<close>

definition queueSAB :: PeerManager where
  "queueSAB =
     \<lparr>clients = [''S'' \<mapsto> \<lparr>cid = ''S'', ws = 1, partnerId = None, isWaiting = True\<rparr>,
                 ''A'' \<mapsto> \<lparr>cid = ''A'', ws = 2, partnerId = None, isWaiting = True\<rparr>,
                 ''B'' \<mapsto> \<lparr>cid = ''B'', ws = 3, partnerId = None, isWaiting = True\<rparr>,
                 ''C'' \<mapsto> \<lparr>cid = ''C'', ws = 4, partnerId = None, isWaiting = False\<rparr>],
      waitingQueue = [''S'', ''A'', ''B'']\<rparr>"

text \<open>A, B and C connect, and A asks for a partner: A waits alone in the queue.\<close>

definition queuedA :: PeerManager where
  "queuedA =
     run allOpen [Register ''A'' 1, Register ''B'' 2, Register ''C'' 3, MatchRequest ''A''] init"

text \<open>
  B asks for a partner after A, at a moment when A's socket does not read as open: B is
  queued too.
\<close>

definition queuedAB :: PeerManager where
  "queuedAB = run_readings [(closedAt 1, MatchRequest ''B'')] queuedA"

text \<open>
  All sockets open. A and B are paired, A asks again and is paired with C, then A
  disconnects: B keeps a partnerId that names nobody.
\<close>

definition danglingB :: PeerManager where
  "danglingB =
     run allOpen [MatchRequest ''A'', Register ''C'' 3, MatchRequest ''C'', Unregister ''A'']
       pairedAB"

definition offerMsg :: Message where
  "offerMsg = \<lparr>type = ''offer'', message = [], payload = ''sdp''\<rparr>"


section \<open>Auxiliary facts\<close>

lemmas scenario_defs =
  run.simps step.simps init_def allOpen_def closedAt_def addClient_def findPartner_def
  removeClient_def disconnectPartners_def available_def Let_def

lemma available_push:
  "available rs \<lparr>clients = (clients pm)(c \<mapsto> x), waitingQueue = q\<rparr> c = available rs pm c"
  by (rule ext) (simp add: available_def)

lemma available_self: "\<not> available rs pm c c"
  by (simp add: available_def)

lemma available_registered:
  "available rs pm c p \<Longrightarrow>
     p \<noteq> c \<and> (\<exists>partner. clients pm p = Some partner \<and> rs (ws partner) = OPEN)"
  by (auto simp: available_def split: option.splits)

text \<open>The two outcomes of \<open>findPartner\<close> for a registered caller, in closed form.\<close>

lemma findPartner_match:
  assumes "clients pm c = Some client"
      and "filter (available rs pm c) (waitingQueue pm) = p # rest"
      and "clients pm p = Some partner" and "p \<noteq> c"
  shows "findPartner rs c pm =
           (Some p,
            \<lparr>clients = (clients pm)
                         (c \<mapsto> client\<lparr>partnerId := Some p, isWaiting := False\<rparr>,
                          p \<mapsto> partner\<lparr>partnerId := Some c, isWaiting := False\<rparr>),
             waitingQueue = filter (\<lambda>i. i \<noteq> c \<and> i \<noteq> p) (waitingQueue pm)\<rparr>)"
  using assms by (auto simp: findPartner_def Let_def available_push available_self)

lemma findPartner_nomatch:
  assumes "clients pm c = Some client"
      and "filter (available rs pm c) (waitingQueue pm) = []"
  shows "findPartner rs c pm =
           (None,
            if \<not> isWaiting client \<and> c \<notin> set (waitingQueue pm)
            then \<lparr>clients = (clients pm)(c \<mapsto> client\<lparr>isWaiting := True\<rparr>),
                  waitingQueue = waitingQueue pm @ [c]\<rparr>
            else pm)"
  using assms by (auto simp: findPartner_def Let_def available_push available_self)

lemma pairedAB_A:
  "clients pairedAB ''A'' =
     Some \<lparr>cid = ''A'', ws = 1, partnerId = Some ''B'', isWaiting = False\<rparr>"
  by (simp add: pairedAB_def scenario_defs)

lemma pairedAB_B:
  "clients pairedAB ''B'' =
     Some \<lparr>cid = ''B'', ws = 2, partnerId = Some ''A'', isWaiting = False\<rparr>"
  by (simp add: pairedAB_def scenario_defs)

lemma pairedAB_queue: "waitingQueue pairedAB = []"
  by (simp add: pairedAB_def scenario_defs)

subsection \<open>The queue in reachable states\<close>

lemma queue_inv_addClient: "queue_inv pm \<Longrightarrow> queue_inv (addClient i w pm)"
  by (auto simp: queue_inv_def addClient_def)

lemma queue_inv_findPartner:
  assumes "queue_inv pm"
  shows "queue_inv (snd (findPartner rs c pm))"
proof (cases "clients pm c")
  case None
  with assms show ?thesis by (simp add: findPartner_def)
next
  case (Some client)
  show ?thesis
  proof (cases "filter (available rs pm c) (waitingQueue pm)")
    case Nil
    from assms Some show ?thesis
      unfolding findPartner_nomatch [OF Some Nil]
      by (auto simp: queue_inv_def)
  next
    case (Cons p rest)
    then have "available rs pm c p"
      by (metis filter_eq_ConsD)
    then obtain partner where pr: "clients pm p = Some partner" "p \<noteq> c"
      by (auto dest: available_registered)
    from assms Some pr show ?thesis
      unfolding findPartner_match [OF Some Cons pr]
      by (auto simp: queue_inv_def)
  qed
qed

lemma removeClient_queue:
  "clients pm i = Some client \<Longrightarrow>
     waitingQueue (snd (removeClient rs i pm)) = remove1 i (waitingQueue pm)"
  by (auto simp: removeClient_def Let_def split: option.splits prod.splits)

lemma removeClient_dom:
  "clients pm i = Some client \<Longrightarrow>
     dom (clients (snd (removeClient rs i pm))) = dom (clients pm) - {i}"
  by (auto simp: removeClient_def Let_def split: option.splits prod.splits if_splits)

lemma removeClient_lookup:
  "clients pm i = Some client \<Longrightarrow> clients (snd (removeClient rs i pm)) j = Some c \<Longrightarrow>
     j \<noteq> i \<and> (\<exists>c'. clients pm j = Some c' \<and> (isWaiting c \<longrightarrow> isWaiting c'))"
  by (auto simp: removeClient_def Let_def split: option.splits prod.splits if_splits)

lemma queue_inv_removeClient:
  assumes "queue_inv pm"
  shows "queue_inv (snd (removeClient rs i pm))"
proof (cases "clients pm i")
  case None
  with assms show ?thesis by (simp add: removeClient_def)
next
  case (Some client)
  let ?pm' = "snd (removeClient rs i pm)"
  from assms have d: "distinct (waitingQueue pm)" by (simp add: queue_inv_def)
  have "distinct (waitingQueue ?pm')"
    using d by (simp add: removeClient_queue [OF Some])
  moreover have "set (waitingQueue ?pm') \<subseteq> dom (clients ?pm')"
    using assms d by (auto simp: queue_inv_def removeClient_queue [OF Some] removeClient_dom [OF Some])
  moreover have "j \<in> set (waitingQueue ?pm')" if "clients ?pm' j = Some c" "isWaiting c" for j c
  proof -
    from removeClient_lookup [OF Some that(1)] that(2)
    obtain c' where ji: "j \<noteq> i" and "clients pm j = Some c'" "isWaiting c'" by blast
    with assms have "j \<in> set (waitingQueue pm)" by (auto simp: queue_inv_def)
    with ji d show ?thesis by (simp add: removeClient_queue [OF Some])
  qed
  ultimately show ?thesis
    by (simp add: queue_inv_def)
qed

lemma queue_inv_disconnectPartners:
  "queue_inv pm \<Longrightarrow> queue_inv (snd (disconnectPartners rs i pm))"
  by (auto simp: queue_inv_def disconnectPartners_def Let_def split: option.splits if_splits)

lemma queue_inv_step: "queue_inv pm \<Longrightarrow> queue_inv (step rs e pm)"
  by (cases e)
     (simp_all add: queue_inv_addClient queue_inv_findPartner queue_inv_removeClient
        queue_inv_disconnectPartners)

lemma reachable_queue_inv: "reachable pm \<Longrightarrow> queue_inv pm"
  by (induction rule: reachable.induct) (simp_all add: queue_inv_step, simp add: queue_inv_def init_def)

lemma reachable_run: "reachable pm \<Longrightarrow> reachable (run rs es pm)"
  by (induction es arbitrary: pm) (simp_all add: reachable_step)

text \<open>
  A caller that is already waiting (flagged, or already in the queue) is not pushed: the
  queue after \<open>findPartner\<close> is the queue before, or the queue before without the caller and
  the partner found.
\<close>

lemma findPartner_waiting_no_insert:
  assumes "clients pm c = Some client" and "isWaiting client \<or> c \<in> set (waitingQueue pm)"
  shows "waitingQueue (snd (findPartner rs c pm)) = waitingQueue pm \<or>
         (\<exists>p. fst (findPartner rs c pm) = Some p \<and>
              waitingQueue (snd (findPartner rs c pm)) =
                filter (\<lambda>i. i \<noteq> c \<and> i \<noteq> p) (waitingQueue pm))"
proof (cases "filter (available rs pm c) (waitingQueue pm)")
  case Nil
  from assms show ?thesis
    unfolding findPartner_nomatch [OF assms(1) Nil] by auto
next
  case (Cons p rest)
  then have "available rs pm c p"
    by (metis filter_eq_ConsD)
  then obtain partner where pr: "clients pm p = Some partner" "p \<noteq> c"
    by (auto dest: available_registered)
  show ?thesis
    unfolding findPartner_match [OF assms(1) Cons pr] by simp
qed

subsection \<open>The order of the queue\<close>

lemma disconnectPartners_queue:
  "waitingQueue (snd (disconnectPartners rs i pm)) = waitingQueue pm"
  by (auto simp: disconnectPartners_def Let_def split: option.splits prod.splits)

text \<open>
  Every call leaves the queue as a selection of the old entries in their old order, with
  at most one new id, which goes behind them.
\<close>

lemma step_queue_shape:
  assumes d: "distinct (waitingQueue pm)"
  shows "\<exists>P new. waitingQueue (step rs e pm) = filter P (waitingQueue pm @ new) \<and>
           (new = [] \<or> (\<exists>c. new = [c] \<and> c \<notin> set (waitingQueue pm)))"
proof (cases e)
  case (Register i w)
  have "waitingQueue (step rs e pm) = filter (\<lambda>_. True) (waitingQueue pm @ [])"
    using Register by (simp add: addClient_def)
  then show ?thesis by blast
next
  case (MatchRequest c)
  show ?thesis
  proof (cases "clients pm c")
    case None
    have "waitingQueue (step rs e pm) = filter (\<lambda>_. True) (waitingQueue pm @ [])"
      using MatchRequest None by (simp add: findPartner_def)
    then show ?thesis by blast
  next
    case (Some client)
    show ?thesis
    proof (cases "filter (available rs pm c) (waitingQueue pm)")
      case Nil
      show ?thesis
      proof (cases "\<not> isWaiting client \<and> c \<notin> set (waitingQueue pm)")
        case True
        then have "waitingQueue (step rs e pm) = filter (\<lambda>_. True) (waitingQueue pm @ [c])"
          using MatchRequest by (simp add: findPartner_nomatch [OF Some Nil])
        with True show ?thesis by blast
      next
        case False
        then have "waitingQueue (step rs e pm) = filter (\<lambda>_. True) (waitingQueue pm @ [])"
          using MatchRequest by (auto simp: findPartner_nomatch [OF Some Nil])
        then show ?thesis by blast
      qed
    next
      case (Cons p rest)
      then have "available rs pm c p"
        by (metis filter_eq_ConsD)
      then obtain partner where pr: "clients pm p = Some partner" "p \<noteq> c"
        by (auto dest: available_registered)
      have "waitingQueue (step rs e pm) =
              filter (\<lambda>i. i \<noteq> c \<and> i \<noteq> p) (waitingQueue pm @ [])"
        using MatchRequest by (simp add: findPartner_match [OF Some Cons pr])
      then show ?thesis by blast
    qed
  qed
next
  case (Unregister i)
  show ?thesis
  proof (cases "clients pm i")
    case None
    have "waitingQueue (step rs e pm) = filter (\<lambda>_. True) (waitingQueue pm @ [])"
      using Unregister None by (simp add: removeClient_def)
    then show ?thesis by blast
  next
    case (Some client)
    have "remove1 i (waitingQueue pm) = filter (\<lambda>x. i \<noteq> x) (waitingQueue pm)"
      using d by (simp add: distinct_remove1_removeAll removeAll_filter_not_eq)
    then have "waitingQueue (step rs e pm) = filter (\<lambda>x. i \<noteq> x) (waitingQueue pm @ [])"
      using Unregister by (simp add: removeClient_queue [OF Some])
    then show ?thesis by blast
  qed
next
  case (EndSession i)
  have "waitingQueue (step rs e pm) = filter (\<lambda>_. True) (waitingQueue pm @ [])"
    using EndSession by (simp add: disconnectPartners_queue)
  then show ?thesis by blast
qed

lemma entered_before_initial:
  "distinct q \<Longrightarrow> a \<in> set q \<Longrightarrow> b \<notin> set q \<Longrightarrow> entered_before a b q"
proof (induction q)
  case Nil
  then show ?case by simp
next
  case (Cons x q)
  show ?case
  proof (cases "x = a")
    case True
    with Cons.prems have "filter (\<lambda>y. y = a \<or> y = b) q = []"
      by (auto simp: filter_empty_conv)
    with True show ?thesis by (simp add: entered_before_def)
  next
    case False
    with Cons show ?thesis by (auto simp: entered_before_def)
  qed
qed

lemma entered_before_queued: "entered_before a b q \<Longrightarrow> a \<in> set q"
proof -
  assume "entered_before a b q"
  then obtain ys where "filter (\<lambda>x. x = a \<or> x = b) q = a # ys"
    by (auto simp: entered_before_def)
  then have "a \<in> set (filter (\<lambda>x. x = a \<or> x = b) q)"
    by (metis list.set_intros(1))
  then show ?thesis by simp
qed

lemma entered_before_step:
  assumes d: "distinct (waitingQueue pm)" and ab: "a \<noteq> b"
      and before: "entered_before a b (waitingQueue pm)"
      and still: "a \<in> set (waitingQueue (step rs e pm))"
  shows "entered_before a b (waitingQueue (step rs e pm))"
proof -
  from step_queue_shape [OF d, of rs e]
  obtain P new where q': "waitingQueue (step rs e pm) = filter P (waitingQueue pm @ new)"
    and new: "new = [] \<or> (\<exists>c. new = [c] \<and> c \<notin> set (waitingQueue pm))"
    by blast
  define X where "X = filter (\<lambda>x. x = a \<or> x = b) (waitingQueue pm)"
  define Y where "Y = filter (\<lambda>x. x = a \<or> x = b) new"
  define Z where "Z = filter (\<lambda>x. x = a \<or> x = b) (waitingQueue (step rs e pm))"
  from still q' have Pa: "P a" by auto
  have comm: "Z = filter P (X @ Y)"
    unfolding X_def Y_def Z_def q' by (simp add: conj_commute)
  from before have X: "X = [a] \<or> X = [a, b]"
    by (simp add: entered_before_def X_def)
  from before have aq: "a \<in> set (waitingQueue pm)" by (rule entered_before_queued)
  have Y: "Y = [] \<or> (Y = [b] \<and> X = [a])"
    using new
  proof
    assume "new = []"
    then show ?thesis by (simp add: Y_def)
  next
    assume "\<exists>c. new = [c] \<and> c \<notin> set (waitingQueue pm)"
    then obtain c where c: "new = [c]" "c \<notin> set (waitingQueue pm)" by blast
    with aq have ca: "c \<noteq> a" by auto
    show ?thesis
    proof (cases "c = b")
      case True
      with c have "b \<notin> set X" by (simp add: X_def)
      with X have "X = [a]" by auto
      with c True ab show ?thesis by (simp add: Y_def)
    next
      case False
      with c ca show ?thesis by (simp add: Y_def)
    qed
  qed
  from X Y comm Pa ab have "Z = [a] \<or> Z = [a, b]" by auto
  then show ?thesis by (simp add: entered_before_def Z_def)
qed

lemma queued_throughout_first: "queued_throughout a res pm \<Longrightarrow> a \<in> set (waitingQueue pm)"
  by (cases res) simp_all

lemma reachable_run_readings: "reachable pm \<Longrightarrow> reachable (run_readings res pm)"
  by (induction res arbitrary: pm) (simp_all add: reachable_step)

lemma entered_before_run:
  "reachable pm \<Longrightarrow> a \<noteq> b \<Longrightarrow> queued_throughout a res pm \<Longrightarrow>
     entered_before a b (waitingQueue pm) \<Longrightarrow>
     entered_before a b (waitingQueue (run_readings res pm))"
proof (induction res arbitrary: pm)
  case Nil
  then show ?case by simp
next
  case (Cons re res)
  let ?pm' = "step (fst re) (snd re) pm"
  from Cons.prems have d: "distinct (waitingQueue pm)"
    using reachable_queue_inv by (simp add: queue_inv_def)
  from Cons.prems have through: "queued_throughout a res ?pm'" by simp
  then have "a \<in> set (waitingQueue ?pm')" by (rule queued_throughout_first)
  with Cons.prems d have "entered_before a b (waitingQueue ?pm')"
    by (simp add: entered_before_step)
  moreover from Cons.prems have "reachable ?pm'" by (simp add: reachable_step)
  ultimately show ?case
    using Cons.IH [of ?pm'] Cons.prems(2) through by simp
qed

text \<open>An entry that came later is not the first one found while the earlier one is skipped.\<close>

lemma entered_before_not_first:
  assumes "entered_before a b q" and "q = pre @ p # post" and "a \<notin> set pre" and "a \<noteq> b"
  shows "p \<noteq> b"
proof
  assume pb: "p = b"
  let ?F = "filter (\<lambda>x. x = a \<or> x = b)"
  have Fq: "?F q = ?F pre @ b # ?F post"
    using assms(2) pb by simp
  show False
  proof (cases "?F pre")
    case Nil
    with Fq assms(1,4) show False by (auto simp: entered_before_def)
  next
    case (Cons y ys)
    then have "y \<in> set (?F pre)" by simp
    with assms(3) have "y = b" by auto
    with Cons Fq assms(1,4) show False by (auto simp: entered_before_def)
  qed
qed

section \<open>Properties\<close>

text \<open>
  C9. \<open>removeClient\<close> on an id that is not in the registry sends nothing and returns the
  state as it was; the operation has no failing branch. After any first call the id is
  gone, so a second call for the same id is that no-op, whatever the sockets' states.
\<close>

theorem removeClient_idempotent:
  "(clients pm i = None \<longrightarrow> removeClient rs i pm = ([], pm)) \<and>
   removeClient rs' i (snd (removeClient rs i pm)) = ([], snd (removeClient rs i pm))"
proof -
  have unknown: "removeClient r i s = ([], s)" if "clients s i = None" for r s
    using that by (simp add: removeClient_def)
  have gone: "clients (snd (removeClient rs i pm)) i = None"
    by (auto simp: removeClient_def Let_def split: option.splits prod.splits)
  show ?thesis using unknown [of pm rs] unknown [OF gone, of rs'] by blast
qed

theorem removeClient_idempotent_witness:
  "clients init ''A'' = None \<and> removeClient allOpen ''A'' init = ([], init) \<and>
   removeClient allOpen ''A'' (snd (removeClient allOpen ''A'' init)) =
     ([], snd (removeClient allOpen ''A'' init))"
  using removeClient_idempotent [of init "''A''" allOpen allOpen]
  by (simp add: init_def)

text \<open>
  C6. Matchmaking is first-come-first-served over the eligible entries. When a registered
  client \<open>c\<close> calls \<open>findPartner\<close> and the queue holds at least one entry \<open>x\<close> that is
  available to it (another id whose client is registered with an open socket), the call
  returns the entry \<open>p\<close> that is available and closest to the head of the queue: nothing
  before it in the queue is available. Afterwards \<open>c\<close> and \<open>p\<close> name each other as partner.
  The position in the queue is the order of arrival: whenever the available entry \<open>x\<close> has
  been in the queue without interruption since a reachable state in which \<open>b\<close> was not
  queued, whatever calls were made since and whatever the sockets' states at each of
  them, the partner returned is not \<open>b\<close>. So if A entered the queue before B and is still
  waiting and reachable, C is paired with A (or with an entry that waited even longer), not
  with B.
\<close>

theorem findPartner_fifo:
  assumes reg: "clients pm c = Some client"
      and ex: "x \<in> set (waitingQueue pm)" "available rs pm c x"
  shows "\<exists>p pre post. waitingQueue pm = pre @ p # post \<and> available rs pm c p \<and>
           (\<forall>y\<in>set pre. \<not> available rs pm c y) \<and>
           fst (findPartner rs c pm) = Some p \<and>
           map_option partnerId (clients (snd (findPartner rs c pm)) c) = Some (Some p) \<and>
           map_option partnerId (clients (snd (findPartner rs c pm)) p) = Some (Some c) \<and>
           (\<forall>pm0 res b.
              reachable pm0 \<and> run_readings res pm0 = pm \<and> queued_throughout x res pm0 \<and>
              b \<notin> set (waitingQueue pm0) \<longrightarrow> p \<noteq> b)"
proof -
  from ex have "filter (available rs pm c) (waitingQueue pm) \<noteq> []"
    by (auto simp: filter_empty_conv)
  then obtain p rest where f: "filter (available rs pm c) (waitingQueue pm) = p # rest"
    by (cases "filter (available rs pm c) (waitingQueue pm)") auto
  from f obtain pre post where q: "waitingQueue pm = pre @ p # post"
    and pre: "\<forall>y\<in>set pre. \<not> available rs pm c y" and pav: "available rs pm c p"
    by (auto simp: filter_eq_Cons_iff)
  from pav obtain partner where pr: "clients pm p = Some partner" "p \<noteq> c"
    by (auto dest: available_registered)
  have paired: "fst (findPartner rs c pm) = Some p \<and>
        map_option partnerId (clients (snd (findPartner rs c pm)) c) = Some (Some p) \<and>
        map_option partnerId (clients (snd (findPartner rs c pm)) p) = Some (Some c)"
    using pr by (simp add: findPartner_match [OF reg f pr])
  have arrival: "p \<noteq> b"
    if r: "reachable pm0" and run: "run_readings res pm0 = pm"
      and through: "queued_throughout x res pm0" and nb: "b \<notin> set (waitingQueue pm0)"
    for pm0 res b
  proof -
    from through have x0: "x \<in> set (waitingQueue pm0)" by (rule queued_throughout_first)
    with nb have xb: "x \<noteq> b" by auto
    from r have "distinct (waitingQueue pm0)"
      using reachable_queue_inv by (simp add: queue_inv_def)
    with x0 nb have "entered_before x b (waitingQueue pm0)"
      by (simp add: entered_before_initial)
    with r xb through have "entered_before x b (waitingQueue (run_readings res pm0))"
      by (rule entered_before_run)
    then have eb: "entered_before x b (waitingQueue pm)" by (simp add: run)
    from pre ex(2) have "x \<notin> set pre" by auto
    from eb q this xb show ?thesis by (rule entered_before_not_first)
  qed
  from q pre pav paired arrival show ?thesis by blast
qed

text \<open>
  A asks for a partner first and waits; B asks while A's socket does not read as open and
  is queued behind A; then, with all sockets open, C asks and is paired with A.
\<close>

theorem findPartner_fifo_witness:
  "clients queuedAB ''C'' = Some \<lparr>cid = ''C'', ws = 3, partnerId = None, isWaiting = False\<rparr> \<and>
   ''A'' \<in> set (waitingQueue queuedAB) \<and> available allOpen queuedAB ''C'' ''A'' \<and>
   available allOpen queuedAB ''C'' ''B'' \<and>
   reachable queuedA \<and> run_readings [(closedAt 1, MatchRequest ''B'')] queuedA = queuedAB \<and>
   queued_throughout ''A'' [(closedAt 1, MatchRequest ''B'')] queuedA \<and>
   ''B'' \<notin> set (waitingQueue queuedA) \<and>
   waitingQueue queuedAB = [''A'', ''B''] \<and>
   fst (findPartner allOpen ''C'' queuedAB) = Some ''A''"
proof -
  have q0: "waitingQueue queuedA = [''A'']"
    by (simp add: queuedA_def scenario_defs)
  have q: "waitingQueue queuedAB = [''A'', ''B'']"
    by (simp add: queuedAB_def queuedA_def scenario_defs)
  have reg: "clients queuedAB ''C'' =
               Some \<lparr>cid = ''C'', ws = 3, partnerId = None, isWaiting = False\<rparr>"
    by (simp add: queuedAB_def queuedA_def scenario_defs)
  have avA: "available allOpen queuedAB ''C'' ''A''"
    by (simp add: queuedAB_def queuedA_def scenario_defs)
  have avB: "available allOpen queuedAB ''C'' ''B''"
    by (simp add: queuedAB_def queuedA_def scenario_defs)
  have inA: "''A'' \<in> set (waitingQueue queuedAB)"
    by (simp add: q)
  have r: "reachable queuedA"
    unfolding queuedA_def by (rule reachable_run [OF reachable_init])
  have run: "run_readings [(closedAt 1, MatchRequest ''B'')] queuedA = queuedAB"
    by (simp add: queuedAB_def)
  have through: "queued_throughout ''A'' [(closedAt 1, MatchRequest ''B'')] queuedA"
    using q q0 run by simp
  have nb: "''B'' \<notin> set (waitingQueue queuedA)"
    by (simp add: q0)
  from findPartner_fifo [OF reg inA avA]
  obtain p pre post where d: "[''A'', ''B''] = pre @ p # post"
    and res: "fst (findPartner allOpen ''C'' queuedAB) = Some p"
    and arrival: "\<forall>pm0 res b.
              reachable pm0 \<and> run_readings res pm0 = queuedAB \<and>
              queued_throughout ''A'' res pm0 \<and> b \<notin> set (waitingQueue pm0) \<longrightarrow> p \<noteq> b"
    unfolding q by blast
  from arrival r run through nb have "p \<noteq> ''B''" by blast
  moreover from d have "p = ''A'' \<or> p = ''B''"
    by (auto simp: Cons_eq_append_conv)
  ultimately have "p = ''A''" by simp
  with res reg inA avA avB r run through nb q show ?thesis by simp
qed

text \<open>
  C7. A relay message (\<open>offer\<close>, \<open>answer\<close>, \<open>ice-candidate\<close>) from a client with no live
  partner (no partnerId, or a partnerId that names no registered client; an unregistered
  sender is registered idle first) causes no send at all, and leaves the registry and the
  queue as they were apart from that registration: the message is dropped, not queued and
  not sent to anybody else.
\<close>

theorem relay_without_partner_dropped:
  assumes kind: "type msg = ''offer'' \<or> type msg = ''answer'' \<or> type msg = ''ice-candidate''"
      and nopartner: "\<forall>c. clients pm i = Some c \<longrightarrow>
                        partnerId c = None \<or> (\<exists>p. partnerId c = Some p \<and> clients pm p = None)"
  shows "handleMessage rs now i w (Some msg) pm =
           (Inr [], if clients pm i = None then addClient i w pm else pm)"
proof -
  have "getPartner i (if clients pm i = None then addClient i w pm else pm) = None"
  proof (cases "clients pm i")
    case None
    then show ?thesis by (simp add: getPartner_def addClient_def)
  next
    case (Some c)
    with nopartner
    have "partnerId c = None \<or> (\<exists>p. partnerId c = Some p \<and> clients pm p = None)"
      by blast
    with Some show ?thesis by (auto simp: getPartner_def)
  qed
  then have "forwardToPartner rs i msg (if clients pm i = None then addClient i w pm else pm) = []"
    by (simp add: forwardToPartner_def)
  with kind show ?thesis
    by (auto simp: handleMessage_def getClient_def Let_def)
qed

text \<open>
  A is still registered with partnerId B, but B has left the registry: A's offer is
  dropped.
\<close>

theorem relay_without_partner_dropped_witness:
  "type offerMsg = ''offer'' \<and>
   clients danglingA ''A'' =
     Some \<lparr>cid = ''A'', ws = 1, partnerId = Some ''B'', isWaiting = False\<rparr> \<and>
   clients danglingA ''B'' = None \<and>
   handleMessage allOpen ''2025-01-01T00:00:00.000Z'' ''A'' 1 (Some offerMsg) danglingA =
     (Inr [], danglingA)"
proof -
  have a: "clients danglingA ''A'' =
             Some \<lparr>cid = ''A'', ws = 1, partnerId = Some ''B'', isWaiting = False\<rparr>"
    by (simp add: danglingA_def pairedAB_def scenario_defs)
  have b: "clients danglingA ''B'' = None"
    by (simp add: danglingA_def pairedAB_def scenario_defs)
  have k: "type offerMsg = ''offer'' \<or> type offerMsg = ''answer'' \<or>
           type offerMsg = ''ice-candidate''"
    by (simp add: offerMsg_def)
  have h: "\<forall>c. clients danglingA ''A'' = Some c \<longrightarrow>
             partnerId c = None \<or> (\<exists>p. partnerId c = Some p \<and> clients danglingA p = None)"
    using a b by simp
  show ?thesis
    using relay_without_partner_dropped
            [OF k h, of allOpen "''2025-01-01T00:00:00.000Z''" 1] a b
    by (simp add: offerMsg_def)
qed

text \<open>
  C8 as stated fails in its second half. \<open>disconnectPartners\<close> resets the client inside
  \<open>if (client?.partnerId)\<close> but outside \<open>if (partner)\<close>. B has no live partner: its partnerId
  names A, which has left the registry. \<open>disconnectPartners\<close> for B is not a no-op: it
  clears B's partnerId.
\<close>

theorem disconnectPartners_clears_dangling:
  "clients danglingB ''B'' =
     Some \<lparr>cid = ''B'', ws = 2, partnerId = Some ''A'', isWaiting = False\<rparr> \<and>
   clients danglingB ''A'' = None \<and>
   getPartner ''B'' danglingB = None \<and>
   clients (snd (disconnectPartners allOpen ''B'' danglingB)) ''B'' =
     Some \<lparr>cid = ''B'', ws = 2, partnerId = None, isWaiting = False\<rparr> \<and>
   disconnectPartners allOpen ''B'' danglingB \<noteq> ([], danglingB)"
proof -
  have b: "clients danglingB ''B'' =
             Some \<lparr>cid = ''B'', ws = 2, partnerId = Some ''A'', isWaiting = False\<rparr>"
    by (simp add: danglingB_def pairedAB_def scenario_defs)
  have a: "clients danglingB ''A'' = None"
    by (simp add: danglingB_def pairedAB_def scenario_defs)
  have g: "getPartner ''B'' danglingB = None"
    using a b by (simp add: getPartner_def)
  have after: "clients (snd (disconnectPartners allOpen ''B'' danglingB)) ''B'' =
                 Some \<lparr>cid = ''B'', ws = 2, partnerId = None, isWaiting = False\<rparr>"
    using a b by (simp add: disconnectPartners_def)
  have "disconnectPartners allOpen ''B'' danglingB \<noteq> ([], danglingB)"
  proof
    assume "disconnectPartners allOpen ''B'' danglingB = ([], danglingB)"
    then have "clients (snd (disconnectPartners allOpen ''B'' danglingB)) ''B'' =
               clients danglingB ''B''"
      by simp
    with after b show False by simp
  qed
  with a b g after show ?thesis by simp
qed

text \<open>
  C8, amended. \<open>disconnectPartners\<close> on a paired client (its partnerId is the non-empty id
  of a registered client, which is what the code tests) resets partnerId and isWaiting of
  both clients, keeps both in the registry with their id and socket, changes no other
  client and does not touch the queue; the partner is notified if its socket is open. On a
  client that is not registered, or has no partnerId, it sends nothing and returns the
  state unchanged. On a client whose partnerId names no registered client it clears that
  client's own partnerId and isWaiting, sends nothing and changes nothing else.
\<close>

theorem disconnectPartners_teardown:
  "(clients pm a = Some ca \<and> partnerId ca = Some b \<and> b \<noteq> [] \<and> clients pm b = Some cb \<longrightarrow>
      snd (disconnectPartners rs a pm) =
        pm\<lparr>clients := (clients pm)(b \<mapsto> cb\<lparr>partnerId := None, isWaiting := False\<rparr>,
                                    a \<mapsto> ca\<lparr>partnerId := None, isWaiting := False\<rparr>)\<rparr> \<and>
      fst (disconnectPartners rs a pm) =
        (if rs (ws cb) = OPEN then [(ws cb, PartnerDisconnected)] else [])) \<and>
   (clients pm a = None \<or>
    (\<exists>c. clients pm a = Some c \<and> (partnerId c = None \<or> partnerId c = Some [])) \<longrightarrow>
      disconnectPartners rs a pm = ([], pm)) \<and>
   (clients pm a = Some ca \<and> partnerId ca = Some b \<and> b \<noteq> [] \<and> clients pm b = None \<longrightarrow>
      disconnectPartners rs a pm =
        ([], pm\<lparr>clients := (clients pm)(a \<mapsto> ca\<lparr>partnerId := None, isWaiting := False\<rparr>)\<rparr>))"
  by (auto simp: disconnectPartners_def Let_def split: option.splits)

text \<open>
  A and B are paired and A ends the session; an end of session in the empty registry; and
  B ends the session when its partnerId names nobody.
\<close>

theorem disconnectPartners_teardown_witness:
  "clients pairedAB ''A'' =
     Some \<lparr>cid = ''A'', ws = 1, partnerId = Some ''B'', isWaiting = False\<rparr> \<and>
   clients pairedAB ''B'' =
     Some \<lparr>cid = ''B'', ws = 2, partnerId = Some ''A'', isWaiting = False\<rparr> \<and>
   clients (snd (disconnectPartners allOpen ''A'' pairedAB)) ''A'' =
     Some \<lparr>cid = ''A'', ws = 1, partnerId = None, isWaiting = False\<rparr> \<and>
   clients (snd (disconnectPartners allOpen ''A'' pairedAB)) ''B'' =
     Some \<lparr>cid = ''B'', ws = 2, partnerId = None, isWaiting = False\<rparr> \<and>
   waitingQueue (snd (disconnectPartners allOpen ''A'' pairedAB)) = [] \<and>
   fst (disconnectPartners allOpen ''A'' pairedAB) = [(2, PartnerDisconnected)] \<and>
   clients init ''A'' = None \<and> disconnectPartners allOpen ''A'' init = ([], init) \<and>
   clients danglingB ''B'' =
     Some \<lparr>cid = ''B'', ws = 2, partnerId = Some ''A'', isWaiting = False\<rparr> \<and>
   clients danglingB ''A'' = None \<and>
   disconnectPartners allOpen ''B'' danglingB =
     ([], danglingB\<lparr>clients := (clients danglingB)
                       (''B'' \<mapsto> \<lparr>cid = ''B'', ws = 2, partnerId = None, isWaiting = False\<rparr>)\<rparr>)"
proof -
  have i: "clients init ''A'' = None" by (simp add: init_def)
  have b: "clients danglingB ''B'' =
             Some \<lparr>cid = ''B'', ws = 2, partnerId = Some ''A'', isWaiting = False\<rparr>"
    by (simp add: danglingB_def pairedAB_def scenario_defs)
  have a: "clients danglingB ''A'' = None"
    by (simp add: danglingB_def pairedAB_def scenario_defs)
  show ?thesis
    using disconnectPartners_teardown
            [of pairedAB "''A''"
                "\<lparr>cid = ''A'', ws = 1, partnerId = Some ''B'', isWaiting = False\<rparr>" "''B''"
                "\<lparr>cid = ''B'', ws = 2, partnerId = Some ''A'', isWaiting = False\<rparr>" allOpen]
          disconnectPartners_teardown [of init "''A''" undefined "[]" undefined allOpen]
          disconnectPartners_teardown
            [of danglingB "''B''"
                "\<lparr>cid = ''B'', ws = 2, partnerId = Some ''A'', isWaiting = False\<rparr>" "''A''"
                undefined allOpen]
          pairedAB_A pairedAB_B pairedAB_queue i a b
    by (simp add: allOpen_def)
qed



text \<open>
  C5 as stated fails: \<open>availableClients\<close> is a local copy, and the queue itself is
  reassigned only when a partner is found, and then only without the caller and the
  partner. Here S waits in the queue with a socket that is no longer open; C asks for a
  partner, gets none, and S is still in the queue afterwards.
\<close>

theorem findPartner_keeps_stale_entry:
  "clients staleS ''S'' = Some \<lparr>cid = ''S'', ws = 1, partnerId = None, isWaiting = True\<rparr> \<and>
   closedAt 1 1 = CLOSED \<and>
   waitingQueue staleS = [''S''] \<and>
   fst (findPartner (closedAt 1) ''C'' staleS) = None \<and>
   waitingQueue (snd (findPartner (closedAt 1) ''C'' staleS)) = [''S'', ''C'']"
  by (simp add: staleS_def scenario_defs)

text \<open>
  C5, amended. A stale queue entry, that is an entry other than the caller that is not
  available to it (its client has no open socket), is skipped by the scan: it is never the
  partner returned, and it is still in the queue after the call, whether the call pairs the
  caller with a later entry or reports no match.
\<close>

theorem findPartner_stale_skipped:
  assumes inq: "p \<in> set (waitingQueue pm)" and other: "p \<noteq> c"
      and stale: "\<not> available rs pm c p"
  shows "p \<in> set (waitingQueue (snd (findPartner rs c pm))) \<and>
         fst (findPartner rs c pm) \<noteq> Some p"
proof (cases "clients pm c")
  case None
  with inq show ?thesis by (simp add: findPartner_def)
next
  case (Some client)
  show ?thesis
  proof (cases "filter (available rs pm c) (waitingQueue pm)")
    case Nil
    from findPartner_nomatch [OF Some Nil] inq show ?thesis by simp
  next
    case (Cons q rest)
    then have av: "available rs pm c q"
      by (metis filter_eq_ConsD)
    with stale have pq: "p \<noteq> q" by auto
    from av obtain partner where "clients pm q = Some partner" "q \<noteq> c"
      by (auto dest: available_registered)
    from findPartner_match [OF Some Cons this] inq other pq show ?thesis by simp
  qed
qed

text \<open>
  The queue is S, A, B with the socket of S closed: C is paired with the later entry A,
  and S stays in the queue.
\<close>

theorem findPartner_stale_skipped_witness:
  "''S'' \<in> set (waitingQueue queueSAB) \<and> ''S'' \<noteq> ''C'' \<and>
   \<not> available (closedAt 1) queueSAB ''C'' ''S'' \<and>
   ''S'' \<in> set (waitingQueue (snd (findPartner (closedAt 1) ''C'' queueSAB))) \<and>
   fst (findPartner (closedAt 1) ''C'' queueSAB) \<noteq> Some ''S''"
proof -
  have inq: "''S'' \<in> set (waitingQueue queueSAB)" by (simp add: queueSAB_def)
  have other: "''S'' \<noteq> ''C''" by simp
  have stale: "\<not> available (closedAt 1) queueSAB ''C'' ''S''"
    by (simp add: queueSAB_def available_def closedAt_def)
  from findPartner_stale_skipped [OF inq other stale] inq other stale
  show ?thesis by blast
qed

text \<open>
  C1 fails on the code for a paired client. The push is guarded by
  \<open>!client.isWaiting && !this.waitingQueue.includes(clientId)\<close> only; partnerId is not
  looked at. A, paired with B and not waiting, calls \<open>findPartner\<close> again: it is appended
  to the queue and marked waiting while its partnerId still names B.
\<close>

theorem findPartner_appends_paired_client:
  "clients pairedAB ''A'' =
     Some \<lparr>cid = ''A'', ws = 1, partnerId = Some ''B'', isWaiting = False\<rparr> \<and>
   waitingQueue pairedAB = [] \<and>
   fst (findPartner allOpen ''A'' pairedAB) = None \<and>
   waitingQueue (snd (findPartner allOpen ''A'' pairedAB)) = [''A''] \<and>
   clients (snd (findPartner allOpen ''A'' pairedAB)) ''A'' =
     Some \<lparr>cid = ''A'', ws = 1, partnerId = Some ''B'', isWaiting = True\<rparr>"
  by (simp add: pairedAB_def scenario_defs)

text \<open>
  C2 fails on the code when the partner's socket is not open. In \<open>removeClient\<close> the reset
  of the partner sits inside the guard \<open>partner.ws.readyState === WebSocket.OPEN\<close> together
  with the notification. A and B are paired and the socket of B is closed: after
  \<open>removeClient\<close> of A, B is still registered with partnerId A, and A is gone.
  \<open>disconnectPartners\<close> in the same state does reset B.
\<close>

theorem removeClient_closed_partner_not_reset:
  "clients pairedAB ''A'' =
     Some \<lparr>cid = ''A'', ws = 1, partnerId = Some ''B'', isWaiting = False\<rparr> \<and>
   clients pairedAB ''B'' =
     Some \<lparr>cid = ''B'', ws = 2, partnerId = Some ''A'', isWaiting = False\<rparr> \<and>
   closedAt 2 2 = CLOSED \<and>
   fst (removeClient (closedAt 2) ''A'' pairedAB) = [] \<and>
   clients (snd (removeClient (closedAt 2) ''A'' pairedAB)) ''A'' = None \<and>
   clients (snd (removeClient (closedAt 2) ''A'' pairedAB)) ''B'' =
     Some \<lparr>cid = ''B'', ws = 2, partnerId = Some ''A'', isWaiting = False\<rparr> \<and>
   clients (snd (disconnectPartners (closedAt 2) ''A'' pairedAB)) ''B'' =
     Some \<lparr>cid = ''B'', ws = 2, partnerId = None, isWaiting = False\<rparr>"
  by (simp add: pairedAB_def scenario_defs)

text \<open>
  C3 fails on the code. All sockets are open. A and B are paired; A asks for a partner
  again and is queued while paired; C connects and asks for a partner and is paired
  with A. At the first observation point A's partnerId is B and A is in the queue; at
  the second B's partnerId is A, but A's partnerId is C, all three being registered.
\<close>

theorem pairing_not_symmetric_after_rematch:
  "map_option partnerId (clients (run allOpen [MatchRequest ''A''] pairedAB) ''A'') =
     Some (Some ''B'') \<and>
   map_option partnerId (clients (run allOpen [MatchRequest ''A''] pairedAB) ''B'') =
     Some (Some ''A'') \<and>
   ''A'' \<in> set (waitingQueue (run allOpen [MatchRequest ''A''] pairedAB)) \<and>
   map_option partnerId
     (clients (run allOpen [MatchRequest ''A'', Register ''C'' 3, MatchRequest ''C''] pairedAB)
        ''B'') = Some (Some ''A'') \<and>
   map_option partnerId
     (clients (run allOpen [MatchRequest ''A'', Register ''C'' 3, MatchRequest ''C''] pairedAB)
        ''A'') = Some (Some ''C'') \<and>
   map_option partnerId
     (clients (run allOpen [MatchRequest ''A'', Register ''C'' 3, MatchRequest ''C''] pairedAB)
        ''C'') = Some (Some ''A'')"
  by (simp add: pairedAB_def scenario_defs)

text \<open>
  C4 fails on the code. All sockets are open. A and B are paired; B asks for a partner
  again and is queued; A disconnects, and \<open>removeClient\<close> resets B's isWaiting without
  taking B out of the queue. The queue then holds B, whose isWaiting is false.
\<close>

theorem queue_member_not_waiting:
  "waitingQueue (run allOpen [MatchRequest ''B'', Unregister ''A''] pairedAB) = [''B''] \<and>
   clients (run allOpen [MatchRequest ''B'', Unregister ''A''] pairedAB) ''B'' =
     Some \<lparr>cid = ''B'', ws = 2, partnerId = None, isWaiting = False\<rparr> \<and>
   clients (run allOpen [MatchRequest ''B'', Unregister ''A''] pairedAB) ''A'' = None"
  by (simp add: pairedAB_def scenario_defs)

end
